theory Spec2Isabelle
  imports Main "HOL-Library.Word"
begin

section \<open>The qemu builder's run step (builder/qemu/step\_run.go)\<close>

text \<open>
  The step computes the command line of the virtual machine from computed defaults and
  the user's \<open>QemuArgs\<close> rows, starts the machine, and stops it on cleanup. Go slices are
  lists (a nil slice and an empty slice are both \<open>[]\<close>: \<open>len\<close>, \<open>range\<close> and \<open>append\<close> do
  not tell them apart), Go maps are partial functions, \<open>uint\<close> is a word of the
  platform's width \<open>'w\<close>, and a Go \<open>error\<close> is its message.
\<close>

subsection \<open>Data\<close>

text \<open>The calls on \<open>packer.Ui\<close>, in the order they are made.\<close>

datatype ui_event = Say string | Message string | Error string

text \<open>
  How \<open>getCommandArgs\<close> can end without a token list: it returns an error
  (\<open>return nil, err\<close>), or \<open>qemuArgs[0]\<close> panics on a row of length 0.
\<close>

datatype failure = Err string | IndexOutOfRange

record (overloaded) 'w qemuArgsTemplateData =
  HTTPIP :: string
  HTTPPort :: "'w word"
  HTTPDir :: string
  OutputDir :: string
  Name :: string

text \<open>The fields of \<open>Config\<close> that the step reads.\<close>

record Config =
  cfg_VMName :: string
  cfg_OutputDir :: string
  cfg_Format :: string
  cfg_Headless :: bool
  cfg_MachineType :: string
  cfg_NetDevice :: string
  cfg_DiskInterface :: string
  cfg_DiskCache :: string
  cfg_DiskDiscard :: string
  cfg_DiskImage :: bool
  cfg_Accelerator :: string
  cfg_HTTPDir :: string
  cfg_QemuArgs :: "string list list"

text \<open>
  The entries of the state bag that \<open>getCommandArgs\<close> reads, each at the type of its type
  assertion; \<open>floppy_path\<close> is read with \<open>GetOk\<close> and may be absent. A bag in which
  one of the other entries is missing or of another type, where the assertion panics, is
  not a value of this record. The \<open>driver\<close> and \<open>ui\<close> entries are the driver record and
  the effects below.
\<close>

record (overloaded) 'w StateBag =
  config :: Config
  iso_path :: string
  vnc_port :: "'w word"
  sshHostPort :: "'w word"
  floppy_path :: "string option"
  http_port :: "'w word"

text \<open>
  Library functions the step calls and this file does not define: \<open>filepath.Join\<close> on two
  elements, \<open>strings.ToLower\<close>, and \<open>interpolate.Render\<close> on the configuration's context
  with its \<open>Data\<close> set (\<open>Inl\<close> is the renderer's error).
\<close>

record (overloaded) 'w library =
  filepath_Join :: "string \<Rightarrow> string \<Rightarrow> string"
  strings_ToLower :: "string \<Rightarrow> string"
  interpolate_Render :: "'w qemuArgsTemplateData \<Rightarrow> string \<Rightarrow> string + string"

subsection \<open>Formatting\<close>

text \<open>\<open>%d\<close> and \<open>%v\<close> of an unsigned integer: its decimal digits.\<close>

definition digit :: "nat \<Rightarrow> char" where
  "digit d = ''0123456789'' ! d"

function fmt_d :: "nat \<Rightarrow> string" where
  "fmt_d n = (if n < 10 then [digit n] else fmt_d (n div 10) @ [digit (n mod 10)])"
  by pat_completeness auto
termination
  by (relation "measure (\<lambda>n. n)") auto

declare fmt_d.simps [simp del]

text \<open>
  The number that a string of decimal digits stands for, against which \<open>fmt_d\<close> is
  checked below.
\<close>

definition digit_value :: "char \<Rightarrow> nat" where
  "digit_value c = of_char c - 48"

definition dec_value :: "string \<Rightarrow> nat" where
  "dec_value s = foldl (\<lambda>a c. 10 * a + digit_value c) 0 s"

subsection \<open>processArgs\<close>

text \<open>
  The inner loop of \<open>processArgs\<close>: the fragments of one row are rendered from left to
  right, and the first error ends the function.
\<close>

fun renderRow :: "(string \<Rightarrow> string + string) \<Rightarrow> string list \<Rightarrow> string + string list" where
  "renderRow render [] = Inr []"
| "renderRow render (parm # rowArgs) =
     (case render parm of
        Inl err \<Rightarrow> Inl err
      | Inr s \<Rightarrow> (case renderRow render rowArgs of
                   Inl err \<Rightarrow> Inl err
                 | Inr parms \<Rightarrow> Inr (s # parms)))"

text \<open>The outer loop; \<open>args == nil\<close> returns the empty list, as the loop over no rows does.\<close>

fun processArgs :: "(string \<Rightarrow> string + string) \<Rightarrow> string list list \<Rightarrow> string + string list list" where
  "processArgs render [] = Inr []"
| "processArgs render (rowArgs # args) =
     (case renderRow render rowArgs of
        Inl err \<Rightarrow> Inl err
      | Inr parms \<Rightarrow> (case processArgs render args of
                       Inl err \<Rightarrow> Inl err
                     | Inr newArgs \<Rightarrow> Inr (parms # newArgs)))"

subsection \<open>getCommandArgs\<close>

definition headless_warning :: string where
  "headless_warning =
     ''WARNING: The VM will be started in headless mode, as configured.'' @ [CHR 0x0A] @
     ''In headless mode, errors during the boot sequence or OS setup'' @ [CHR 0x0A] @
     ''won't be easily visible. Use at your own discretion.''"

definition accel_warning :: string where
  "accel_warning =
     ''WARNING: The VM will be started with no hardware acceleration.'' @ [CHR 0x0A] @
     ''The installation may take considerably longer to finish.'' @ [CHR 0x0A]"

text \<open>
  Lines 66 to 106: the default argument map and the messages sent to the UI while it is
  built. The assignments are made in the source's order; the accelerator suffix is
  appended to the \<open>-machine\<close> entry written before it. The line that \<open>log.Println\<close>
  writes when there is no floppy is not an effect of this model.
\<close>

definition vnc_arg :: "'w::len word \<Rightarrow> string" where
  "vnc_arg vncPort = ''0.0.0.0:'' @ fmt_d (unat (vncPort - 5900))"

definition defaultArgsOf ::
  "'w::len library \<Rightarrow> string \<Rightarrow> 'w StateBag \<Rightarrow> ui_event list \<times> (string \<rightharpoonup> string)" where
  "defaultArgsOf lib bootDrive state =
     (let cfg = config state;
          vnc = vnc_arg (vnc_port state);
          vmName = cfg_VMName cfg;
          imgPath = filepath_Join lib (cfg_OutputDir cfg)
                      (vmName @ ''.'' @ strings_ToLower lib (cfg_Format cfg));
          (ui1, d1) = (if cfg_Headless cfg = True
                       then ([Message headless_warning], Map.empty)
                       else ([], [''-display'' \<mapsto> ''sdl'']));
          d2 = d1(''-name'' \<mapsto> vmName);
          d3 = d2(''-machine'' \<mapsto> ''type='' @ cfg_MachineType cfg);
          d4 = d3(''-netdev'' \<mapsto> ''user,id=user.0,hostfwd=tcp::'' @
                                  fmt_d (unat (sshHostPort state)) @ ''-:22'');
          d5 = d4(''-device'' \<mapsto> cfg_NetDevice cfg @ '',netdev=user.0'');
          d6 = d5(''-drive'' \<mapsto> ''file='' @ imgPath @ '',if='' @ cfg_DiskInterface cfg @
                                 '',cache='' @ cfg_DiskCache cfg @
                                 '',discard='' @ cfg_DiskDiscard cfg);
          d7 = (if \<not> cfg_DiskImage cfg then d6(''-cdrom'' \<mapsto> iso_path state) else d6);
          d8 = d7(''-boot'' \<mapsto> bootDrive);
          d9 = d8(''-m'' \<mapsto> ''512M'');
          d10 = d9(''-vnc'' \<mapsto> vnc);
          (ui2, d11) = (if cfg_Accelerator cfg \<noteq> ''none''
                        then ([], d10(''-machine'' \<mapsto>
                                 (case d10 ''-machine'' of Some s \<Rightarrow> s | None \<Rightarrow> [])
                                 @ '',accel='' @ cfg_Accelerator cfg))
                        else ([Message accel_warning], d10));
          d12 = (case floppy_path state of
                   Some floppyPathRaw \<Rightarrow> d11(''-fda'' \<mapsto> floppyPathRaw)
                 | None \<Rightarrow> d11)
      in (ui1 @ ui2, d12))"

text \<open>
  Reading a map of slices at a key: the slice stored there, and the nil slice for a key
  that is absent.
\<close>

definition slice_at :: "(string \<rightharpoonup> string list) \<Rightarrow> string \<Rightarrow> string list" where
  "slice_at m key = (case m key of Some values \<Rightarrow> values | None \<Rightarrow> [])"

text \<open>
  Lines 129 to 138: every rendered row registers its key in \<open>inArgs\<close>, and appends the
  concatenation of its fragments to the key's slice unless that is empty (\<open>addRow\<close>, the
  body of the loop from line 132 on). A row of length 0 has no element 0.
\<close>

definition addRow :: "(string \<rightharpoonup> string list) \<Rightarrow> string \<Rightarrow> string \<Rightarrow> (string \<rightharpoonup> string list)" where
  "addRow inArgs key val =
     (let inArgs1 = (if inArgs key = None then inArgs(key \<mapsto> []) else inArgs)
      in if length val > 0 then inArgs1(key \<mapsto> slice_at inArgs1 key @ [val]) else inArgs1)"

fun collectArgs ::
  "(string \<rightharpoonup> string list) \<Rightarrow> string list list \<Rightarrow> failure + (string \<rightharpoonup> string list)" where
  "collectArgs inArgs [] = Inr inArgs"
| "collectArgs inArgs ([] # newQemuArgs) = Inl IndexOutOfRange"
| "collectArgs inArgs ((key # frags) # newQemuArgs) =
     collectArgs (addRow inArgs key (concat frags)) newQemuArgs"

text \<open>
  Lines 108 to 139: with at least one row configured, the step announces the override,
  renders the rows and collects them; a rendering error is returned as it is.
\<close>

definition templateData :: "'w StateBag \<Rightarrow> 'w qemuArgsTemplateData" where
  "templateData state =
     \<lparr> HTTPIP = ''10.0.2.2'', HTTPPort = http_port state,
       HTTPDir = cfg_HTTPDir (config state), OutputDir = cfg_OutputDir (config state),
       Name = cfg_VMName (config state) \<rparr>"

definition overrideArgsOf ::
  "'w::len library \<Rightarrow> 'w StateBag \<Rightarrow> ui_event list \<times> (failure + (string \<rightharpoonup> string list))" where
  "overrideArgsOf lib state =
     (if length (cfg_QemuArgs (config state)) > 0 then
        (case processArgs (interpolate_Render lib (templateData state))
                (cfg_QemuArgs (config state)) of
           Inl err \<Rightarrow> ([Say ''Overriding defaults Qemu arguments with QemuArgs...''], Inl (Err err))
         | Inr newQemuArgs \<Rightarrow>
             ([Say ''Overriding defaults Qemu arguments with QemuArgs...''],
              collectArgs Map.empty newQemuArgs))
      else ([], Inr Map.empty))"

text \<open>
  Go visits the keys of a map in an order it does not specify, each key once. A
  \<open>range\<close> over a map is modelled by the list of keys in the order of the visit, which
  the functions below take as a parameter; \<open>range_order m ks\<close> says that \<open>ks\<close> is such
  a visit of \<open>m\<close>.
\<close>

definition range_order :: "(string \<rightharpoonup> 'v) \<Rightarrow> string list \<Rightarrow> bool" where
  "range_order m ks \<longleftrightarrow> distinct ks \<and> set ks = dom m"

text \<open>
  Lines 142 to 148: a default whose key is not in \<open>inArgs\<close> becomes a slice of one value.
  \<open>defaultArgs[key]\<close> is the empty string for a key that is absent.
\<close>

definition string_at :: "(string \<rightharpoonup> string) \<Rightarrow> string \<Rightarrow> string" where
  "string_at m key = (case m key of Some s \<Rightarrow> s | None \<Rightarrow> [])"

fun fillDefaults ::
  "(string \<rightharpoonup> string) \<Rightarrow> string list \<Rightarrow> (string \<rightharpoonup> string list) \<Rightarrow> (string \<rightharpoonup> string list)" where
  "fillDefaults defaultArgs [] inArgs = inArgs"
| "fillDefaults defaultArgs (key # keys) inArgs =
     fillDefaults defaultArgs keys
       (if inArgs key = None then inArgs(key \<mapsto> [string_at defaultArgs key]) else inArgs)"

text \<open>
  Lines 151 to 160: a key with values is appended once before each of them, a key with
  none is appended alone (\<open>appendKey\<close>, the body of the loop). The visit gives the keys
  of the map only: a key of the list that the map does not have adds nothing.
\<close>

fun appendValues :: "string list \<Rightarrow> string \<Rightarrow> string list \<Rightarrow> string list" where
  "appendValues outArgs key [] = outArgs"
| "appendValues outArgs key (v # values) = appendValues (outArgs @ [key, v]) key values"

definition appendKey :: "string list \<Rightarrow> string \<Rightarrow> string list \<Rightarrow> string list" where
  "appendKey outArgs key values =
     (if length values > 0 then appendValues outArgs key values else outArgs @ [key])"

fun flattenArgs :: "string list \<Rightarrow> (string \<rightharpoonup> string list) \<Rightarrow> string list \<Rightarrow> string list" where
  "flattenArgs outArgs inArgs [] = outArgs"
| "flattenArgs outArgs inArgs (key # keys) =
     flattenArgs
       (case inArgs key of None \<Rightarrow> outArgs | Some values \<Rightarrow> appendKey outArgs key values)
       inArgs keys"

text \<open>
  Lines 129 to 162 as a function of the rendered rows and the default map: \<open>dkeys\<close> is
  the visit of \<open>defaultArgs\<close>, \<open>keys\<close> the visit of \<open>inArgs\<close>.
\<close>

definition mergeArgs ::
  "string list list \<Rightarrow> (string \<rightharpoonup> string) \<Rightarrow> string list \<Rightarrow> string list \<Rightarrow> failure + string list" where
  "mergeArgs newQemuArgs defaultArgs dkeys keys =
     (case collectArgs Map.empty newQemuArgs of
        Inl f \<Rightarrow> Inl f
      | Inr inArgs \<Rightarrow> Inr (flattenArgs [] (fillDefaults defaultArgs dkeys inArgs) keys))"

definition getCommandArgs ::
  "'w::len library \<Rightarrow> string \<Rightarrow> 'w StateBag \<Rightarrow> string list \<Rightarrow> string list
     \<Rightarrow> ui_event list \<times> (failure + string list)" where
  "getCommandArgs lib bootDrive state dkeys keys =
     (let (ui1, defaultArgs) = defaultArgsOf lib bootDrive state;
          (ui2, r) = overrideArgsOf lib state
      in case r of
           Inl f \<Rightarrow> (ui1 @ ui2, Inl f)
         | Inr inArgs \<Rightarrow>
             (ui1 @ ui2, Inr (flattenArgs [] (fillDefaults defaultArgs dkeys inArgs) keys)))"

subsection \<open>Run and Cleanup\<close>

text \<open>
  The driver is the process supervisor: \<open>drv_Qemu\<close> is what \<open>driver.Qemu\<close> returns for a
  command line and \<open>drv_Stop\<close> what \<open>driver.Stop\<close> returns, \<open>None\<close> for a nil error.
  A step's effects are its calls on the driver and on the UI, in order.
\<close>

record Driver =
  drv_Qemu :: "string list \<Rightarrow> string option"
  drv_Stop :: "string option"

datatype effect = CallQemu "string list" | CallStop | Ui ui_event

datatype StepAction = ActionContinue | ActionHalt

record stepRun =
  step_BootDrive :: string
  step_Message :: string

text \<open>
  \<open>Run\<close> returns a step action, or ends in the panic of \<open>getCommandArgs\<close>.
\<close>

definition Run ::
  "stepRun \<Rightarrow> 'w::len library \<Rightarrow> 'w StateBag \<Rightarrow> Driver \<Rightarrow> string list \<Rightarrow> string list
     \<Rightarrow> effect list \<times> (failure + StepAction)" where
  "Run s lib state driver dkeys keys =
     (case getCommandArgs lib (step_BootDrive s) state dkeys keys of
        (ui, Inl (Err err)) \<Rightarrow>
          (Ui (Say (step_Message s)) # map Ui ui @
             [Ui (Error (''Error processing QemuArggs: '' @ err))], Inr ActionHalt)
      | (ui, Inl IndexOutOfRange) \<Rightarrow>
          (Ui (Say (step_Message s)) # map Ui ui, Inl IndexOutOfRange)
      | (ui, Inr command) \<Rightarrow>
          (case drv_Qemu driver command of
             Some err \<Rightarrow>
               (Ui (Say (step_Message s)) # map Ui ui @
                  [CallQemu command, Ui (Error (''Error launching VM: '' @ err))], Inr ActionHalt)
           | None \<Rightarrow>
               (Ui (Say (step_Message s)) # map Ui ui @ [CallQemu command], Inr ActionContinue)))"

text \<open>\<open>Cleanup\<close> has no result: it returns after its effects.\<close>

definition Cleanup :: "stepRun \<Rightarrow> Driver \<Rightarrow> effect list" where
  "Cleanup s driver =
     (case drv_Stop driver of
        Some err \<Rightarrow> [CallStop, Ui (Error (''Error shutting down VM: '' @ err))]
      | None \<Rightarrow> [CallStop])"

subsection \<open>The token sequence as the specification reads it\<close>

text \<open>
  An entry is what one \<open>append\<close> of the flattening adds: a key with a value, or a key
  alone. \<open>tokens_of\<close> writes entries out as tokens; \<open>key_entries\<close> are the entries of one
  key with its bucket, and \<open>entries_of\<close> those of a map visited in a given key order.
\<close>

definition tokens_of :: "(string \<times> string option) list \<Rightarrow> string list" where
  "tokens_of es = concat (map (\<lambda>(k, v). case v of None \<Rightarrow> [k] | Some x \<Rightarrow> [k, x]) es)"

definition key_entries :: "string \<Rightarrow> string list \<Rightarrow> (string \<times> string option) list" where
  "key_entries k vs = (if vs = [] then [(k, None)] else map (\<lambda>v. (k, Some v)) vs)"

definition entries_of :: "(string \<rightharpoonup> string list) \<Rightarrow> string list \<Rightarrow> (string \<times> string option) list" where
  "entries_of m ks = concat (map (\<lambda>k. case m k of None \<Rightarrow> [] | Some vs \<Rightarrow> key_entries k vs) ks)"

text \<open>
  The values that entries give to a key, in order, and the map from key to value list
  that a list of entries stands for.
\<close>

definition values_of :: "(string \<times> string option) list \<Rightarrow> string \<Rightarrow> string list" where
  "values_of es k = concat (map (\<lambda>(k', v). case v of None \<Rightarrow> [] | Some x \<Rightarrow> if k' = k then [x] else []) es)"

definition buckets_of :: "(string \<times> string option) list \<Rightarrow> string \<rightharpoonup> string list" where
  "buckets_of es k = (if k \<in> set (map fst es) then Some (values_of es k) else None)"

text \<open>
  The override rows as the specification reads them: the keys of the rows, the value of
  every row of a key (its fragments concatenated), and the bucket of a key, which keeps
  the values that are not empty. A key of the overrides has the bucket of its rows; any
  other key has its default as the only value.
\<close>

definition override_keys :: "string list list \<Rightarrow> string list" where
  "override_keys rows = concat (map (\<lambda>row. case row of [] \<Rightarrow> [] | k # frags \<Rightarrow> [k]) rows)"

definition row_values :: "string list list \<Rightarrow> string \<Rightarrow> string list" where
  "row_values rows k =
     concat (map (\<lambda>row. case row of [] \<Rightarrow> [] | k' # frags \<Rightarrow> if k' = k then [concat frags] else []) rows)"

definition override_values :: "string list list \<Rightarrow> string \<Rightarrow> string list" where
  "override_values rows k = filter (\<lambda>v. v \<noteq> []) (row_values rows k)"

definition bucket :: "string list list \<Rightarrow> (string \<rightharpoonup> string) \<Rightarrow> string \<rightharpoonup> string list" where
  "bucket rows D k = (if k \<in> set (override_keys rows) then Some (override_values rows k)
                      else map_option (\<lambda>v. [v]) (D k))"

subsection \<open>Example inputs\<close>

text \<open>
  Rendered override rows with a key of several fragments, a key without a value, a key
  whose second row renders to the empty string, and a key given twice; defaults with an
  empty boot drive.
\<close>

definition example_rows :: "string list list" where
  "example_rows =
     [[''-m'', ''1'', ''G''], [''-S''], [''-fda'', ''a''], [''-dev'', ''x''],
      [''-fda'', ''''], [''-fda'', ''b''], [''-dev'', ''y'']]"

definition example_defaults :: "string \<rightharpoonup> string" where
  "example_defaults = [''-m'' \<mapsto> ''512M'', ''-boot'' \<mapsto> '''']"

definition example_inArgs :: "string \<rightharpoonup> string list" where
  "example_inArgs =
     [''-m'' \<mapsto> [''1G''], ''-S'' \<mapsto> [], ''-fda'' \<mapsto> [''a'', ''b''], ''-dev'' \<mapsto> [''x'', ''y'']]"

definition example_dkeys :: "string list" where
  "example_dkeys = [''-boot'', ''-m'']"

definition example_keys :: "string list" where
  "example_keys = [''-fda'', ''-boot'', ''-S'', ''-dev'', ''-m'']"

text \<open>
  A configuration, a state bag and library functions on a 64-bit platform: \<open>Render\<close>
  fails on one placeholder and returns every other fragment as it is. The states below
  differ from \<open>example_state\<close> in one entry each; the two orders are visits of the
  default map of \<open>example_state\<close>.
\<close>

definition example_config :: Config where
  "example_config =
     \<lparr> cfg_VMName = ''vm'', cfg_OutputDir = ''out'', cfg_Format = ''qcow2'',
       cfg_Headless = True, cfg_MachineType = ''pc'', cfg_NetDevice = ''e1000'',
       cfg_DiskInterface = ''virtio'', cfg_DiskCache = ''none'', cfg_DiskDiscard = ''ignore'',
       cfg_DiskImage = True, cfg_Accelerator = ''kvm'', cfg_HTTPDir = ''http'',
       cfg_QemuArgs = [[''-m'', ''1G''], [''-dev'', ''x''], [''-dev'', ''y'']] \<rparr>"

definition example_state :: "64 StateBag" where
  "example_state =
     \<lparr> config = example_config, iso_path = ''a.iso'', vnc_port = 5947, sshHostPort = 2222,
       floppy_path = None, http_port = 8080 \<rparr>"

definition example_library :: "64 library" where
  "example_library =
     \<lparr> filepath_Join = (\<lambda>dir name. dir @ ''/'' @ name),
       strings_ToLower = (\<lambda>s. s),
       interpolate_Render =
         (\<lambda>data s. if s = ''{{ .Nope }}'' then Inl ''no such field'' else Inr s) \<rparr>"

definition failing_state :: "64 StateBag" where
  "failing_state =
     example_state \<lparr> config :=
       example_config \<lparr> cfg_QemuArgs := [[''-m'', ''1G''], [''-x'', ''{{ .Nope }}''], []] \<rparr> \<rparr>"

definition clash_state :: "64 StateBag" where
  "clash_state =
     example_state \<lparr> config := example_config \<lparr> cfg_QemuArgs := [[''-m'', ''512M'']] \<rparr> \<rparr>"

definition windowed_state :: "64 StateBag" where
  "windowed_state = example_state \<lparr> config := example_config \<lparr> cfg_Headless := False \<rparr> \<rparr>"

definition wrapped_state :: "64 StateBag" where
  "wrapped_state = example_state \<lparr> vnc_port := 5899 \<rparr>"

definition example_collected :: "string \<rightharpoonup> string list" where
  "example_collected = [''-m'' \<mapsto> [''1G''], ''-dev'' \<mapsto> [''x'', ''y'']]"

definition example_order1 :: "string list" where
  "example_order1 =
     [''-name'', ''-machine'', ''-netdev'', ''-device'', ''-drive'', ''-boot'', ''-m'', ''-vnc'']"

definition example_order2 :: "string list" where
  "example_order2 =
     [''-vnc'', ''-boot'', ''-m'', ''-drive'', ''-device'', ''-netdev'', ''-machine'', ''-name'']"

text \<open>A step, a driver that stops the machine and one that fails to.\<close>

definition example_step :: stepRun where
  "example_step = \<lparr> step_BootDrive = ''c'', step_Message = ''Starting the virtual machine...'' \<rparr>"

definition stopping_driver :: Driver where
  "stopping_driver = \<lparr> drv_Qemu = (\<lambda>command. None), drv_Stop = None \<rparr>"

definition failing_driver :: Driver where
  "failing_driver = \<lparr> drv_Qemu = (\<lambda>command. None), drv_Stop = Some ''timeout'' \<rparr>"

section \<open>Properties\<close>

subsection \<open>The loops in closed form\<close>

lemma override_keys_Cons [simp]:
  "override_keys ((k # frags) # rows) = k # override_keys rows" "override_keys [] = []"
  by (simp_all add: override_keys_def)

lemma override_values_Cons [simp]:
  "override_values ((k' # frags) # rows) k =
     (if k' = k \<and> concat frags \<noteq> [] then concat frags # override_values rows k
      else override_values rows k)"
  "override_values [] k = []"
  by (simp_all add: override_values_def row_values_def)

lemma override_values_absent:
  "[] \<notin> set rows \<Longrightarrow> k \<notin> set (override_keys rows) \<Longrightarrow> override_values rows k = []"
proof (induction rows)
  case Nil
  then show ?case by simp
next
  case (Cons row rows)
  then show ?case by (cases row) auto
qed

lemma collectArgs_Inr:
  "[] \<notin> set rows \<Longrightarrow>
   collectArgs m rows =
     Inr (\<lambda>k. if k \<in> set (override_keys rows) then Some (slice_at m k @ override_values rows k) else m k)"
proof (induction rows arbitrary: m)
  case Nil
  then show ?case by simp
next
  case (Cons row rows)
  then obtain key frags where row: "row = key # frags"
    by (cases row) auto
  from Cons.prems have rest: "[] \<notin> set rows" by simp
  show ?case
    unfolding row
    by (auto simp: addRow_def Let_def Cons.IH [OF rest] slice_at_def fun_eq_iff
          override_values_absent [OF rest] split: option.splits)
qed

lemma collectArgs_Inl: "[] \<in> set rows \<Longrightarrow> collectArgs m rows = Inl IndexOutOfRange"
  by (induction m rows rule: collectArgs.induct) auto

lemma fillDefaults_eq:
  "fillDefaults D dks m =
     (\<lambda>k. case m k of Some vs \<Rightarrow> Some vs
                      | None \<Rightarrow> if k \<in> set dks then Some [string_at D k] else None)"
  by (induction dks arbitrary: m) (auto simp: fun_eq_iff split: option.splits)

lemma tokens_of_append: "tokens_of (xs @ ys) = tokens_of xs @ tokens_of ys"
  by (simp add: tokens_of_def)

lemma appendValues_eq: "appendValues acc k vs = acc @ tokens_of (map (\<lambda>v. (k, Some v)) vs)"
  by (induction vs arbitrary: acc) (auto simp: tokens_of_def)

lemma flattenArgs_eq: "flattenArgs acc m ks = acc @ tokens_of (entries_of m ks)"
  by (induction ks arbitrary: acc)
     (auto simp: entries_of_def key_entries_def appendKey_def appendValues_eq tokens_of_append
        split: option.splits,
      auto simp: tokens_of_def)

lemma filter_entries_of:
  "distinct ks \<Longrightarrow>
   filter (\<lambda>e. fst e = k) (entries_of m ks) =
     (if k \<in> set ks then (case m k of None \<Rightarrow> [] | Some vs \<Rightarrow> key_entries k vs) else [])"
  by (induction ks) (auto simp: entries_of_def key_entries_def filter_empty_conv split: option.splits)

lemma override_values_row_values: "override_values rows k = filter (\<lambda>v. v \<noteq> []) (row_values rows k)"
  by (simp add: override_values_def)

lemma row_values_nonempty:
  "k \<in> set (override_keys rows) \<Longrightarrow> row_values rows k \<noteq> []"
  by (induction rows) (auto simp: override_keys_def row_values_def split: list.splits)

lemma collectArgs_Inr_rows: "collectArgs m rows = Inr inArgs \<Longrightarrow> [] \<notin> set rows"
  using collectArgs_Inl [of rows m] by auto

lemma dom_bucket: "dom (bucket rows D) = set (override_keys rows) \<union> dom D"
  by (auto simp: bucket_def split: if_splits)

lemma collected_map:
  assumes "collectArgs Map.empty rows = Inr inArgs"
  shows "inArgs = (\<lambda>k. if k \<in> set (override_keys rows) then Some (override_values rows k) else None)"
proof -
  have rows: "[] \<notin> set rows"
    using assms by (rule collectArgs_Inr_rows)
  show ?thesis
    using assms collectArgs_Inr [OF rows, of Map.empty] by (auto simp: slice_at_def)
qed

lemma final_map:
  assumes "collectArgs Map.empty rows = Inr inArgs" and "range_order D dks"
  shows "fillDefaults D dks inArgs = bucket rows D"
proof -
  have inArgs: "inArgs = (\<lambda>k. if k \<in> set (override_keys rows) then Some (override_values rows k) else None)"
    using assms(1) by (rule collected_map)
  have dks: "set dks = dom D"
    using assms(2) by (simp add: range_order_def)
  show ?thesis
    unfolding fillDefaults_eq inArgs
    by (auto simp: fun_eq_iff bucket_def dks string_at_def dom_def split: option.splits)
qed

lemma mergeArgs_entries:
  assumes "collectArgs Map.empty rows = Inr inArgs" and "range_order D dks"
  shows "mergeArgs rows D dks ks = Inr (tokens_of (entries_of (bucket rows D) ks))"
  using assms by (simp add: mergeArgs_def final_map flattenArgs_eq)

lemma values_of_append: "values_of (xs @ ys) k = values_of xs k @ values_of ys k"
  by (simp add: values_of_def)

lemma values_of_pairs: "values_of (map (\<lambda>v. (k', Some v)) vs) k = (if k' = k then vs else [])"
  by (induction vs) (auto simp: values_of_def)

lemma values_of_key_entries: "values_of (key_entries k' vs) k = (if k' = k then vs else [])"
proof (cases "vs = []")
  case True
  then show ?thesis by (simp add: key_entries_def values_of_def)
next
  case False
  then show ?thesis by (simp add: key_entries_def values_of_pairs)
qed

lemma entries_of_Cons:
  "entries_of m (a # ks) = (case m a of None \<Rightarrow> [] | Some vs \<Rightarrow> key_entries a vs) @ entries_of m ks"
  by (simp add: entries_of_def)

lemma values_of_entries_of:
  "distinct ks \<Longrightarrow> values_of (entries_of m ks) k = (if k \<in> set ks then slice_at m k else [])"
proof (induction ks)
  case Nil
  then show ?case by (simp add: entries_of_def values_of_def)
next
  case (Cons a ks)
  from Cons show ?case
    by (auto simp: entries_of_Cons values_of_append values_of_key_entries slice_at_def split: option.splits)
       (simp_all add: values_of_def)
qed

lemma fst_key_entries: "fst ` set (key_entries k vs) = {k}"
  by (cases vs) (auto simp: key_entries_def image_iff)

lemma keys_entries_of: "set ks \<subseteq> dom m \<Longrightarrow> fst ` set (entries_of m ks) = set ks"
proof (induction ks)
  case Nil
  then show ?case by (simp add: entries_of_def)
next
  case (Cons a ks)
  then obtain vs where a: "m a = Some vs" by auto
  from Cons show ?case
    by (simp add: entries_of_Cons a image_Un fst_key_entries)
qed

lemma buckets_of_entries_of: "range_order m ks \<Longrightarrow> buckets_of (entries_of m ks) = m"
proof
  fix k
  assume r: "range_order m ks"
  then have d: "distinct ks" and s: "set ks = dom m"
    by (simp_all add: range_order_def)
  have keys: "set (map fst (entries_of m ks)) = dom m"
    using keys_entries_of [of ks m] s by simp
  show "buckets_of (entries_of m ks) k = m k"
    unfolding buckets_of_def keys values_of_entries_of [OF d] s
    by (auto simp: slice_at_def dom_def split: option.splits)
qed

lemma entries_of_append: "entries_of m (ks1 @ ks2) = entries_of m ks1 @ entries_of m ks2"
  by (simp add: entries_of_def)

lemma mergeArgs_model_entries:
  "collectArgs Map.empty rows = Inr inArgs \<Longrightarrow>
   mergeArgs rows D dks ks = Inr (tokens_of (entries_of (fillDefaults D dks inArgs) ks))"
  by (simp add: mergeArgs_def flattenArgs_eq)

lemma tokens_around_key:
  assumes "k \<in> set ks" and "m k = Some vs"
  shows "\<exists>ks1 ks2. ks = ks1 @ k # ks2 \<and>
           tokens_of (entries_of m ks) =
             tokens_of (entries_of m ks1) @ tokens_of (key_entries k vs) @ tokens_of (entries_of m ks2)"
proof -
  from assms(1) obtain ks1 ks2 where ks: "ks = ks1 @ k # ks2"
    by (auto dest: split_list)
  have "entries_of m ks = entries_of m ks1 @ key_entries k vs @ entries_of m ks2"
    unfolding ks by (simp add: entries_of_append entries_of_Cons assms(2))
  then show ?thesis
    using ks by (auto simp: tokens_of_append)
qed

lemma range_order_final:
  assumes "collectArgs Map.empty rows = Inr inArgs" and "range_order D dks"
    and "range_order (fillDefaults D dks inArgs) ks"
  shows "distinct ks" and "set ks = set (override_keys rows) \<union> dom D"
  using assms(3) unfolding final_map [OF assms(1,2)] range_order_def dom_bucket by simp_all

lemma filter_bucket_entries:
  assumes "distinct ks" and "k \<in> set ks" and "bucket rows D k = Some vs"
  shows "filter (\<lambda>e. fst e = k) (entries_of (bucket rows D) ks) = key_entries k vs"
  using assms by (simp add: filter_entries_of)

lemma example_collect: "collectArgs Map.empty example_rows = Inr example_inArgs"
  by (simp add: example_rows_def example_inArgs_def addRow_def slice_at_def Let_def fun_eq_iff)

lemma example_dorder: "range_order example_defaults example_dkeys"
  by (auto simp: range_order_def example_defaults_def example_dkeys_def)

lemma example_order:
  "range_order (fillDefaults example_defaults example_dkeys example_inArgs) example_keys"
  by (auto simp: range_order_def example_defaults_def example_inArgs_def example_dkeys_def
        example_keys_def string_at_def)

lemma example_final:
  "fillDefaults example_defaults example_dkeys example_inArgs =
     [''-m'' \<mapsto> [''1G''], ''-S'' \<mapsto> [], ''-fda'' \<mapsto> [''a'', ''b''], ''-dev'' \<mapsto> [''x'', ''y''],
      ''-boot'' \<mapsto> ['''']]"
  by (simp add: example_defaults_def example_inArgs_def example_dkeys_def string_at_def)

subsection \<open>Decimal digits\<close>

lemma digit_value_digit: "d < 10 \<Longrightarrow> digit_value (digit d) = d"
proof -
  assume "d < 10"
  then have "d \<in> {0, 1, 2, 3, 4, 5, 6, 7, 8, 9}"
    by auto
  then show ?thesis
    by (auto simp: digit_def digit_value_def)
qed

lemma dec_value_snoc: "dec_value (s @ [c]) = 10 * dec_value s + digit_value c"
  by (simp add: dec_value_def)

lemma dec_value_fmt_d: "dec_value (fmt_d n) = n"
proof (induction n rule: fmt_d.induct)
  case (1 n)
  show ?case
  proof (cases "n < 10")
    case True
    then show ?thesis
      by (subst fmt_d.simps) (simp add: dec_value_def digit_value_digit)
  next
    case False
    with 1 have "dec_value (fmt_d (n div 10)) = n div 10"
      by simp
    with False show ?thesis
      by (subst fmt_d.simps) (simp add: dec_value_snoc digit_value_digit)
  qed
qed

subsection \<open>Rendering and the stages of getCommandArgs\<close>

lemma find_append_cases:
  "List.find P (xs @ ys) = (case List.find P xs of Some x \<Rightarrow> Some x | None \<Rightarrow> List.find P ys)"
  by (induction xs) auto

lemma renderRow_first_error:
  "List.find (\<lambda>p. isl (render p)) row = Some q \<Longrightarrow> renderRow render row = Inl (projl (render q))"
  by (induction row) (auto split: sum.splits if_splits)

lemma renderRow_all_rendered:
  "List.find (\<lambda>p. isl (render p)) row = None \<Longrightarrow>
   renderRow render row = Inr (map (\<lambda>p. projr (render p)) row)"
  by (induction row) (auto split: sum.splits if_splits)

lemma processArgs_first_error:
  "List.find (\<lambda>p. isl (render p)) (concat args) = Some q \<Longrightarrow>
   processArgs render args = Inl (projl (render q))"
proof (induction args)
  case Nil
  then show ?case by simp
next
  case (Cons row args)
  show ?case
  proof (cases "List.find (\<lambda>p. isl (render p)) row")
    case None
    with Cons.prems have "List.find (\<lambda>p. isl (render p)) (concat args) = Some q"
      by (simp add: find_append_cases)
    with Cons.IH None show ?thesis
      by (simp add: renderRow_all_rendered)
  next
    case (Some x)
    with Cons.prems have "x = q"
      by (simp add: find_append_cases)
    with Some show ?thesis
      by (simp add: renderRow_first_error)
  qed
qed

lemma processArgs_all_rendered:
  "List.find (\<lambda>p. isl (render p)) (concat args) = None \<Longrightarrow>
   processArgs render args = Inr (map (map (\<lambda>p. projr (render p))) args)"
proof (induction args)
  case Nil
  then show ?case by simp
next
  case (Cons row args)
  then have "List.find (\<lambda>p. isl (render p)) row = None"
    and "List.find (\<lambda>p. isl (render p)) (concat args) = None"
    by (auto simp: find_append_cases split: option.splits)
  with Cons.IH show ?case
    by (simp add: renderRow_all_rendered)
qed

lemma getCommandArgs_ui:
  "fst (getCommandArgs lib bd st dks ks) = fst (defaultArgsOf lib bd st) @ fst (overrideArgsOf lib st)"
  by (simp add: getCommandArgs_def split: prod.splits sum.splits)

lemma getCommandArgs_Inl:
  "snd (overrideArgsOf lib st) = Inl f \<Longrightarrow> snd (getCommandArgs lib bd st dks ks) = Inl f"
  by (cases "overrideArgsOf lib st"; cases "defaultArgsOf lib bd st") (simp add: getCommandArgs_def)

lemma getCommandArgs_Inr:
  "snd (overrideArgsOf lib st) = Inr inArgs \<Longrightarrow>
   snd (getCommandArgs lib bd st dks ks) =
     Inr (flattenArgs [] (fillDefaults (snd (defaultArgsOf lib bd st)) dks inArgs) ks)"
  by (cases "overrideArgsOf lib st"; cases "defaultArgsOf lib bd st") (simp add: getCommandArgs_def)

lemma overrideArgsOf_error:
  "processArgs (interpolate_Render lib (templateData st)) (cfg_QemuArgs (config st)) = Inl err \<Longrightarrow>
   snd (overrideArgsOf lib st) = Inl (Err err)"
  by (cases "cfg_QemuArgs (config st)") (auto simp: overrideArgsOf_def)

lemma overrideArgsOf_rendered:
  "processArgs (interpolate_Render lib (templateData st)) (cfg_QemuArgs (config st)) = Inr rows \<Longrightarrow>
   snd (overrideArgsOf lib st) = collectArgs Map.empty rows"
  by (cases "cfg_QemuArgs (config st)") (auto simp: overrideArgsOf_def)

lemma getCommandArgs_mergeArgs:
  assumes "processArgs (interpolate_Render lib (templateData st)) (cfg_QemuArgs (config st)) = Inr rows"
  shows "snd (getCommandArgs lib bd st dks ks) = mergeArgs rows (snd (defaultArgsOf lib bd st)) dks ks"
proof (cases "collectArgs Map.empty rows")
  case (Inl f)
  with overrideArgsOf_rendered [OF assms] show ?thesis
    by (simp add: getCommandArgs_Inl mergeArgs_def)
next
  case (Inr inArgs)
  with overrideArgsOf_rendered [OF assms] show ?thesis
    by (simp add: getCommandArgs_Inr mergeArgs_def)
qed

lemma fillDefaults_order:
  "set dks1 = set dks2 \<Longrightarrow> fillDefaults D dks1 m = fillDefaults D dks2 m"
  unfolding fillDefaults_eq by (auto simp: fun_eq_iff split: option.splits)

lemma defaultArgsOf_ui:
  "fst (defaultArgsOf lib bd st) =
     (if cfg_Headless (config st) then [Message headless_warning] else []) @
     (if cfg_Accelerator (config st) \<noteq> ''none'' then [] else [Message accel_warning])"
  by (simp add: defaultArgsOf_def Let_def split: prod.splits)

lemma defaultArgsOf_display:
  "snd (defaultArgsOf lib bd st) ''-display'' =
     (if cfg_Headless (config st) then None else Some ''sdl'')"
  by (simp add: defaultArgsOf_def Let_def split: prod.splits option.splits)

lemma defaultArgsOf_vnc:
  "snd (defaultArgsOf lib bd st) ''-vnc'' = Some (vnc_arg (vnc_port st))"
  by (simp add: defaultArgsOf_def Let_def split: prod.splits option.splits)

lemma warnings_differ: "headless_warning \<noteq> accel_warning"
  by (simp add: headless_warning_def accel_warning_def)

lemma overrideArgsOf_ui:
  "count_list (fst (overrideArgsOf lib st)) (Message msg) = 0"
  by (simp add: overrideArgsOf_def split: sum.splits)

lemma Run_halts_on_error:
  "snd (getCommandArgs lib (step_BootDrive s) st dks ks) = Inl (Err err) \<Longrightarrow>
   snd (Run s lib st driver dks ks) = Inr ActionHalt"
  by (cases "getCommandArgs lib (step_BootDrive s) st dks ks") (simp add: Run_def)

subsection \<open>The example inputs\<close>

lemma example_state_defaults:
  "snd (defaultArgsOf example_library ''c'' example_state) =
     [''-name'' \<mapsto> ''vm'', ''-machine'' \<mapsto> ''type=pc,accel=kvm'',
      ''-netdev'' \<mapsto> ''user,id=user.0,hostfwd=tcp::2222-:22'',
      ''-device'' \<mapsto> ''e1000,netdev=user.0'',
      ''-drive'' \<mapsto> ''file=out/vm.qcow2,if=virtio,cache=none,discard=ignore'',
      ''-boot'' \<mapsto> ''c'', ''-m'' \<mapsto> ''512M'', ''-vnc'' \<mapsto> ''0.0.0.0:47'']"
  by (simp add: defaultArgsOf_def example_state_def example_config_def example_library_def
        vnc_arg_def fmt_d.simps digit_def Let_def fun_eq_iff)

lemma example_state_collected:
  "snd (overrideArgsOf example_library example_state) = Inr example_collected"
  by (simp add: overrideArgsOf_def example_state_def example_config_def example_library_def
        example_collected_def addRow_def slice_at_def Let_def)

lemma example_state_dorder:
  "range_order (snd (defaultArgsOf example_library ''c'' example_state)) example_order1"
  "range_order (snd (defaultArgsOf example_library ''c'' example_state)) example_order2"
  unfolding example_state_defaults
  by (auto simp: range_order_def example_order1_def example_order2_def)

lemma example_state_final:
  "fillDefaults (snd (defaultArgsOf example_library ''c'' example_state)) example_order1 example_collected =
     [''-m'' \<mapsto> [''1G''], ''-dev'' \<mapsto> [''x'', ''y''], ''-name'' \<mapsto> [''vm''],
      ''-machine'' \<mapsto> [''type=pc,accel=kvm''],
      ''-netdev'' \<mapsto> [''user,id=user.0,hostfwd=tcp::2222-:22''],
      ''-device'' \<mapsto> [''e1000,netdev=user.0''],
      ''-drive'' \<mapsto> [''file=out/vm.qcow2,if=virtio,cache=none,discard=ignore''],
      ''-boot'' \<mapsto> [''c''], ''-vnc'' \<mapsto> [''0.0.0.0:47'']]"
  unfolding example_state_defaults
  by (simp add: example_order1_def example_collected_def string_at_def)

lemma example_state_final2:
  "fillDefaults (snd (defaultArgsOf example_library ''c'' example_state)) example_order2 example_collected =
   fillDefaults (snd (defaultArgsOf example_library ''c'' example_state)) example_order1 example_collected"
  by (rule fillDefaults_order) (auto simp: example_order1_def example_order2_def)

lemma example_state_order:
  "range_order (fillDefaults (snd (defaultArgsOf example_library ''c'' example_state)) example_order1
     example_collected) (''-dev'' # example_order1)"
  "range_order (fillDefaults (snd (defaultArgsOf example_library ''c'' example_state)) example_order2
     example_collected) (example_order2 @ [''-dev''])"
  unfolding example_state_final2 example_state_final
  by (auto simp: range_order_def example_order1_def example_order2_def)

lemma clash_state_defaults:
  "snd (defaultArgsOf example_library ''c'' clash_state) =
   snd (defaultArgsOf example_library ''c'' example_state)"
  by (simp add: defaultArgsOf_def clash_state_def example_state_def example_config_def Let_def)

lemma clash_state_rendered:
  "processArgs (interpolate_Render example_library (templateData clash_state))
     (cfg_QemuArgs (config clash_state)) = Inr [[''-m'', ''512M'']]"
  by (simp add: clash_state_def example_library_def)

subsection \<open>Merging overrides and defaults\<close>

text \<open>
  Claim C1, as amended. For all rendered override rows and all defaults for which
  \<open>getCommandArgs\<close> reaches its flattening, the returned tokens are the entries of the
  specification's buckets in the order of the visit: the keys of the entries are the
  union of the override keys and the default keys, and every key of the union has one
  entry with a value per value of its bucket, in the bucket's order, or one entry
  without a value when the bucket is empty. For a key of the override rows, also one
  whose row renders to an empty value, the entries are those of the values of its rows
  that are not empty: the default of that key is not added to them.
\<close>

theorem merge_emits_each_bucket:
  assumes "collectArgs Map.empty rows = Inr inArgs"
    and "range_order D dks"
    and "range_order (fillDefaults D dks inArgs) ks"
  shows "mergeArgs rows D dks ks = Inr (tokens_of (entries_of (bucket rows D) ks)) \<and>
         fst ` set (entries_of (bucket rows D) ks) = set (override_keys rows) \<union> dom D \<and>
         (\<forall>k \<in> set (override_keys rows) \<union> dom D.
            filter (\<lambda>e. fst e = k) (entries_of (bucket rows D) ks) =
              key_entries k (slice_at (bucket rows D) k)) \<and>
         (\<forall>k \<in> set (override_keys rows).
            filter (\<lambda>e. fst e = k) (entries_of (bucket rows D) ks) =
              key_entries k (override_values rows k))"
proof -
  note order = range_order_final [OF assms]
  have keys: "fst ` set (entries_of (bucket rows D) ks) = set (override_keys rows) \<union> dom D"
    using keys_entries_of [of ks "bucket rows D"] order(2) by (simp add: dom_bucket)
  have each: "filter (\<lambda>e. fst e = k) (entries_of (bucket rows D) ks) =
                key_entries k (slice_at (bucket rows D) k)"
    if "k \<in> set (override_keys rows) \<union> dom D" for k
  proof -
    from that have "k \<in> dom (bucket rows D)" by (simp add: dom_bucket)
    then obtain vs where vs: "bucket rows D k = Some vs" by auto
    from that order(2) have "k \<in> set ks" by simp
    from filter_bucket_entries [OF order(1) this vs] show ?thesis
      by (simp add: slice_at_def vs)
  qed
  have over: "filter (\<lambda>e. fst e = k) (entries_of (bucket rows D) ks) =
                key_entries k (override_values rows k)"
    if "k \<in> set (override_keys rows)" for k
    using each [of k] that by (simp add: slice_at_def bucket_def)
  show ?thesis
    using mergeArgs_entries [OF assms(1,2)] keys each over by blast
qed

theorem merge_emits_each_bucket_witness:
  "collectArgs Map.empty example_rows = Inr example_inArgs \<and>
   range_order example_defaults example_dkeys \<and>
   range_order (fillDefaults example_defaults example_dkeys example_inArgs) example_keys \<and>
   mergeArgs example_rows example_defaults example_dkeys example_keys =
     Inr [''-fda'', ''a'', ''-fda'', ''b'', ''-boot'', '''', ''-S'',
          ''-dev'', ''x'', ''-dev'', ''y'', ''-m'', ''1G'']"
  using merge_emits_each_bucket [OF example_collect example_dorder example_order]
    example_collect example_dorder example_order
  by (simp add: tokens_of_def entries_of_def bucket_def key_entries_def example_rows_def
        example_defaults_def example_keys_def)

text \<open>
  Claim C1 as the specification states it says that the default of an override key never
  appears in the output. In \<open>clash_state\<close> the only override row is \<open>-m 512M\<close>, and the
  default of \<open>-m\<close> is \<open>512M\<close>: the output has \<open>-m\<close> followed by \<open>512M\<close>, so the value
  of the default does appear, as the value of the override.
\<close>

theorem default_value_appears_counterexample:
  "processArgs (interpolate_Render example_library (templateData clash_state))
     (cfg_QemuArgs (config clash_state)) = Inr [[''-m'', ''512M'']] \<and>
   ''-m'' \<in> set (override_keys [[''-m'', ''512M'']]) \<and>
   snd (defaultArgsOf example_library ''c'' clash_state) ''-m'' = Some ''512M'' \<and>
   range_order (snd (defaultArgsOf example_library ''c'' clash_state)) example_order1 \<and>
   range_order (fillDefaults (snd (defaultArgsOf example_library ''c'' clash_state)) example_order1
     [''-m'' \<mapsto> [''512M'']]) example_order1 \<and>
   snd (getCommandArgs example_library ''c'' clash_state example_order1 example_order1) =
     Inr [''-name'', ''vm'', ''-machine'', ''type=pc,accel=kvm'',
          ''-netdev'', ''user,id=user.0,hostfwd=tcp::2222-:22'', ''-device'', ''e1000,netdev=user.0'',
          ''-drive'', ''file=out/vm.qcow2,if=virtio,cache=none,discard=ignore'',
          ''-boot'', ''c'', ''-m'', ''512M'', ''-vnc'', ''0.0.0.0:47''] \<and>
   values_of (entries_of (fillDefaults (snd (defaultArgsOf example_library ''c'' clash_state))
     example_order1 [''-m'' \<mapsto> [''512M'']]) example_order1) ''-m'' = [''512M'']"
proof -
  let ?D = "snd (defaultArgsOf example_library ''c'' clash_state)"
  have final: "fillDefaults ?D example_order1 [''-m'' \<mapsto> [''512M'']] =
     [''-m'' \<mapsto> [''512M''], ''-name'' \<mapsto> [''vm''],
      ''-machine'' \<mapsto> [''type=pc,accel=kvm''],
      ''-netdev'' \<mapsto> [''user,id=user.0,hostfwd=tcp::2222-:22''],
      ''-device'' \<mapsto> [''e1000,netdev=user.0''],
      ''-drive'' \<mapsto> [''file=out/vm.qcow2,if=virtio,cache=none,discard=ignore''],
      ''-boot'' \<mapsto> [''c''], ''-vnc'' \<mapsto> [''0.0.0.0:47'']]"
    unfolding clash_state_defaults example_state_defaults
    by (simp add: example_order1_def string_at_def)
  have d: "?D ''-m'' = Some ''512M''"
    unfolding clash_state_defaults example_state_defaults by simp
  have r1: "range_order ?D example_order1"
    unfolding clash_state_defaults by (rule example_state_dorder)
  have r2: "range_order (fillDefaults ?D example_order1 [''-m'' \<mapsto> [''512M'']]) example_order1"
    unfolding final by (auto simp: range_order_def example_order1_def)
  have out: "snd (getCommandArgs example_library ''c'' clash_state example_order1 example_order1) =
     Inr [''-name'', ''vm'', ''-machine'', ''type=pc,accel=kvm'',
          ''-netdev'', ''user,id=user.0,hostfwd=tcp::2222-:22'', ''-device'', ''e1000,netdev=user.0'',
          ''-drive'', ''file=out/vm.qcow2,if=virtio,cache=none,discard=ignore'',
          ''-boot'', ''c'', ''-m'', ''512M'', ''-vnc'', ''0.0.0.0:47'']"
  proof -
    have "snd (getCommandArgs example_library ''c'' clash_state example_order1 example_order1) =
            Inr (flattenArgs [] (fillDefaults ?D example_order1 [''-m'' \<mapsto> [''512M'']]) example_order1)"
      unfolding getCommandArgs_mergeArgs [OF clash_state_rendered] mergeArgs_def
      by (simp add: addRow_def slice_at_def Let_def)
    then show ?thesis
      unfolding final flattenArgs_eq
      by (simp add: tokens_of_def entries_of_def key_entries_def example_order1_def)
  qed
  have v: "values_of (entries_of (fillDefaults ?D example_order1 [''-m'' \<mapsto> [''512M'']])
             example_order1) ''-m'' = [''512M'']"
    unfolding final
    by (simp add: values_of_def entries_of_def key_entries_def example_order1_def)
  show ?thesis
    using clash_state_rendered d r1 r2 out v by simp
qed

text \<open>
  Claim C2. A key of the override rows is followed in the output by the values of its
  rows that are not empty, in the order of the rows, and by nothing else. When none of
  the \<open>N\<close> rows of the key has an empty value, the output has exactly \<open>N\<close> entries for
  the key, each the key with a value, with the values in the order of the rows.
\<close>

theorem repeated_key_pairs_in_order:
  assumes "collectArgs Map.empty rows = Inr inArgs"
    and "range_order D dks"
    and "range_order (fillDefaults D dks inArgs) ks"
    and "k \<in> set (override_keys rows)"
  shows "mergeArgs rows D dks ks = Inr (tokens_of (entries_of (fillDefaults D dks inArgs) ks)) \<and>
         values_of (entries_of (fillDefaults D dks inArgs) ks) k =
           filter (\<lambda>v. v \<noteq> []) (row_values rows k) \<and>
         ([] \<notin> set (row_values rows k) \<longrightarrow>
            filter (\<lambda>e. fst e = k) (entries_of (fillDefaults D dks inArgs) ks) =
              map (\<lambda>v. (k, Some v)) (row_values rows k) \<and>
            length (filter (\<lambda>e. fst e = k) (entries_of (fillDefaults D dks inArgs) ks)) =
              length (row_values rows k))"
proof -
  let ?m = "fillDefaults D dks inArgs"
  have m: "?m = bucket rows D"
    using assms(1,2) by (rule final_map)
  have d: "distinct ks" and s: "k \<in> set ks"
    using assms(3,4) by (auto simp: range_order_def m dom_bucket)
  have b: "?m k = Some (filter (\<lambda>v. v \<noteq> []) (row_values rows k))"
    using assms(4) by (simp add: m bucket_def override_values_row_values)
  have vals: "values_of (entries_of ?m ks) k = filter (\<lambda>v. v \<noteq> []) (row_values rows k)"
    by (simp add: values_of_entries_of [OF d] s slice_at_def b)
  have ents: "filter (\<lambda>e. fst e = k) (entries_of ?m ks) = map (\<lambda>v. (k, Some v)) (row_values rows k)"
    if "[] \<notin> set (row_values rows k)"
  proof -
    from that have "filter (\<lambda>v. v \<noteq> []) (row_values rows k) = row_values rows k"
      by (auto simp: filter_id_conv)
    then show ?thesis
      using row_values_nonempty [OF assms(4)]
      by (simp add: filter_entries_of [OF d] s b key_entries_def)
  qed
  show ?thesis
    using mergeArgs_model_entries [OF assms(1)] vals ents by simp
qed

theorem repeated_key_pairs_in_order_witness:
  "collectArgs Map.empty example_rows = Inr example_inArgs \<and>
   range_order example_defaults example_dkeys \<and>
   range_order (fillDefaults example_defaults example_dkeys example_inArgs) example_keys \<and>
   ''-dev'' \<in> set (override_keys example_rows) \<and>
   row_values example_rows ''-dev'' = [''x'', ''y''] \<and>
   filter (\<lambda>e. fst e = ''-dev'')
     (entries_of (fillDefaults example_defaults example_dkeys example_inArgs) example_keys) =
     [(''-dev'', Some ''x''), (''-dev'', Some ''y'')] \<and>
   row_values example_rows ''-fda'' = [''a'', '''', ''b''] \<and>
   values_of (entries_of (fillDefaults example_defaults example_dkeys example_inArgs) example_keys)
     ''-fda'' = [''a'', ''b'']"
proof -
  have dev: "''-dev'' \<in> set (override_keys example_rows)"
    and fda: "''-fda'' \<in> set (override_keys example_rows)"
    by (simp_all add: example_rows_def)
  have rv: "row_values example_rows ''-dev'' = [''x'', ''y'']"
    "row_values example_rows ''-fda'' = [''a'', '''', ''b'']"
    by (simp_all add: row_values_def example_rows_def)
  show ?thesis
    using repeated_key_pairs_in_order [OF example_collect example_dorder example_order dev]
      repeated_key_pairs_in_order [OF example_collect example_dorder example_order fda]
      example_collect example_dorder example_order dev rv
    by simp
qed

text \<open>
  Claim C3. When every row of an override key renders to an empty value, the output has
  exactly one entry for the key, the key alone: no value follows it as its own, so the
  default of the key, if there is one, is not given to it.
\<close>

theorem empty_overrides_give_bare_flag:
  assumes "collectArgs Map.empty rows = Inr inArgs"
    and "range_order D dks"
    and "range_order (fillDefaults D dks inArgs) ks"
    and "k \<in> set (override_keys rows)"
    and "\<forall>v \<in> set (row_values rows k). v = []"
  shows "mergeArgs rows D dks ks = Inr (tokens_of (entries_of (fillDefaults D dks inArgs) ks)) \<and>
         filter (\<lambda>e. fst e = k) (entries_of (fillDefaults D dks inArgs) ks) = [(k, None)] \<and>
         (\<forall>v. (k, Some v) \<notin> set (entries_of (fillDefaults D dks inArgs) ks)) \<and>
         (\<forall>d. D k = Some d \<longrightarrow> (k, Some d) \<notin> set (entries_of (fillDefaults D dks inArgs) ks)) \<and>
         (\<exists>ks1 ks2. ks = ks1 @ k # ks2 \<and> k \<notin> set ks1 \<and> k \<notin> set ks2 \<and>
            tokens_of (entries_of (fillDefaults D dks inArgs) ks) =
              tokens_of (entries_of (fillDefaults D dks inArgs) ks1) @ [k] @
              tokens_of (entries_of (fillDefaults D dks inArgs) ks2))"
proof -
  let ?m = "fillDefaults D dks inArgs"
  have m: "?m = bucket rows D"
    using assms(1,2) by (rule final_map)
  have d: "distinct ks" and s: "k \<in> set ks"
    using assms(3,4) by (auto simp: range_order_def m dom_bucket)
  have "filter (\<lambda>v. v \<noteq> []) (row_values rows k) = []"
    using assms(5) by (auto simp: filter_empty_conv)
  then have b: "?m k = Some []"
    using assms(4) by (simp add: m bucket_def override_values_row_values)
  have ents: "filter (\<lambda>e. fst e = k) (entries_of ?m ks) = [(k, None)]"
    by (simp add: filter_entries_of [OF d] s b key_entries_def)
  have none: "(k, Some v) \<notin> set (entries_of ?m ks)" for v
  proof
    assume "(k, Some v) \<in> set (entries_of ?m ks)"
    then have "(k, Some v) \<in> set (filter (\<lambda>e. fst e = k) (entries_of ?m ks))"
      by simp
    then show False
      unfolding ents by simp
  qed
  from tokens_around_key [of k ks ?m, OF s b] obtain ks1 ks2 where
    ks: "ks = ks1 @ k # ks2" and
    toks: "tokens_of (entries_of ?m ks) =
             tokens_of (entries_of ?m ks1) @ tokens_of (key_entries k []) @ tokens_of (entries_of ?m ks2)"
    by blast
  have "k \<notin> set ks1" "k \<notin> set ks2"
    using d unfolding ks by auto
  moreover have "tokens_of (key_entries k []) = [k]"
    by (simp add: key_entries_def tokens_of_def)
  ultimately have split: "\<exists>ks1 ks2. ks = ks1 @ k # ks2 \<and> k \<notin> set ks1 \<and> k \<notin> set ks2 \<and>
            tokens_of (entries_of ?m ks) =
              tokens_of (entries_of ?m ks1) @ [k] @ tokens_of (entries_of ?m ks2)"
    using ks toks by auto
  show ?thesis
    using mergeArgs_model_entries [OF assms(1)] ents none split by simp
qed

theorem empty_overrides_give_bare_flag_witness:
  "collectArgs Map.empty [[''-boot'', '''', '''']] = Inr [''-boot'' \<mapsto> []] \<and>
   range_order example_defaults example_dkeys \<and>
   range_order (fillDefaults example_defaults example_dkeys [''-boot'' \<mapsto> []]) [''-m'', ''-boot''] \<and>
   ''-boot'' \<in> set (override_keys [[''-boot'', '''', '''']]) \<and>
   row_values [[''-boot'', '''', '''']] ''-boot'' = [''''] \<and>
   mergeArgs [[''-boot'', '''', '''']] example_defaults example_dkeys [''-m'', ''-boot''] =
     Inr [''-m'', ''512M'', ''-boot'']"
proof -
  have c: "collectArgs Map.empty [[''-boot'', '''', '''']] = Inr [''-boot'' \<mapsto> []]"
    by (simp add: addRow_def Let_def)
  have r: "range_order (fillDefaults example_defaults example_dkeys [''-boot'' \<mapsto> []]) [''-m'', ''-boot'']"
    by (auto simp: range_order_def example_defaults_def example_dkeys_def string_at_def)
  have k: "''-boot'' \<in> set (override_keys [[''-boot'', '''', '''']])"
    by simp
  have e: "\<forall>v \<in> set (row_values [[''-boot'', '''', '''']] ''-boot''). v = []"
    by (simp add: row_values_def)
  have v: "row_values [[''-boot'', '''', '''']] ''-boot'' = ['''']"
    by (simp add: row_values_def)
  show ?thesis
    using empty_overrides_give_bare_flag [OF c example_dorder r k e] c example_dorder r k v
    by (simp add: tokens_of_def entries_of_def key_entries_def example_defaults_def
          example_dkeys_def string_at_def)
qed

text \<open>
  Claim C10. A default key that no override row has is written with its default value
  after it, as a token of its own, also when that value is the empty string: its one
  entry is the key with the value, never the key alone. The buckets collected from the
  override rows, in contrast, never hold an empty value.
\<close>

theorem default_only_key_keeps_value:
  assumes "collectArgs Map.empty rows = Inr inArgs"
    and "range_order D dks"
    and "range_order (fillDefaults D dks inArgs) ks"
    and "D k = Some d"
    and "k \<notin> set (override_keys rows)"
  shows "mergeArgs rows D dks ks = Inr (tokens_of (entries_of (fillDefaults D dks inArgs) ks)) \<and>
         filter (\<lambda>e. fst e = k) (entries_of (fillDefaults D dks inArgs) ks) = [(k, Some d)] \<and>
         (k, None) \<notin> set (entries_of (fillDefaults D dks inArgs) ks) \<and>
         (\<exists>ks1 ks2. ks = ks1 @ k # ks2 \<and> k \<notin> set ks1 \<and> k \<notin> set ks2 \<and>
            tokens_of (entries_of (fillDefaults D dks inArgs) ks) =
              tokens_of (entries_of (fillDefaults D dks inArgs) ks1) @ [k, d] @
              tokens_of (entries_of (fillDefaults D dks inArgs) ks2)) \<and>
         (\<forall>k'. [] \<notin> set (slice_at inArgs k'))"
proof -
  let ?m = "fillDefaults D dks inArgs"
  have m: "?m = bucket rows D"
    using assms(1,2) by (rule final_map)
  have d: "distinct ks" and s: "k \<in> set ks"
    using assms(3,4) by (auto simp: range_order_def m dom_bucket)
  have b: "?m k = Some [d]"
    using assms(4,5) by (simp add: m bucket_def)
  have ents: "filter (\<lambda>e. fst e = k) (entries_of ?m ks) = [(k, Some d)]"
    by (simp add: filter_entries_of [OF d] s b key_entries_def)
  have bare: "(k, None) \<notin> set (entries_of ?m ks)"
  proof
    assume "(k, None) \<in> set (entries_of ?m ks)"
    then have "(k, None) \<in> set (filter (\<lambda>e. fst e = k) (entries_of ?m ks))"
      by simp
    then show False
      unfolding ents by simp
  qed
  from tokens_around_key [of k ks ?m, OF s b] obtain ks1 ks2 where
    ks: "ks = ks1 @ k # ks2" and
    toks: "tokens_of (entries_of ?m ks) =
             tokens_of (entries_of ?m ks1) @ tokens_of (key_entries k [d]) @ tokens_of (entries_of ?m ks2)"
    by blast
  have "k \<notin> set ks1" "k \<notin> set ks2"
    using d unfolding ks by auto
  moreover have "tokens_of (key_entries k [d]) = [k, d]"
    by (simp add: key_entries_def tokens_of_def)
  ultimately have split: "\<exists>ks1 ks2. ks = ks1 @ k # ks2 \<and> k \<notin> set ks1 \<and> k \<notin> set ks2 \<and>
            tokens_of (entries_of ?m ks) =
              tokens_of (entries_of ?m ks1) @ [k, d] @ tokens_of (entries_of ?m ks2)"
    using ks toks by auto
  have dropped: "[] \<notin> set (slice_at inArgs k')" for k'
    unfolding collected_map [OF assms(1)]
    by (simp add: slice_at_def override_values_row_values)
  show ?thesis
    using mergeArgs_model_entries [OF assms(1)] ents bare split dropped by simp
qed

theorem default_only_key_keeps_value_witness:
  "collectArgs Map.empty example_rows = Inr example_inArgs \<and>
   range_order example_defaults example_dkeys \<and>
   range_order (fillDefaults example_defaults example_dkeys example_inArgs) example_keys \<and>
   example_defaults ''-boot'' = Some '''' \<and>
   ''-boot'' \<notin> set (override_keys example_rows) \<and>
   filter (\<lambda>e. fst e = ''-boot'')
     (entries_of (fillDefaults example_defaults example_dkeys example_inArgs) example_keys) =
     [(''-boot'', Some '''')] \<and>
   mergeArgs example_rows example_defaults example_dkeys example_keys =
     Inr [''-fda'', ''a'', ''-fda'', ''b'', ''-boot'', '''', ''-S'',
          ''-dev'', ''x'', ''-dev'', ''y'', ''-m'', ''1G'']"
proof -
  have d: "example_defaults ''-boot'' = Some ''''"
    by (simp add: example_defaults_def)
  have k: "''-boot'' \<notin> set (override_keys example_rows)"
    by (simp add: example_rows_def)
  show ?thesis
    using default_only_key_keeps_value [OF example_collect example_dorder example_order d k]
      example_collect example_dorder example_order d k
    by (simp add: example_final tokens_of_def entries_of_def key_entries_def example_keys_def)
qed

subsection \<open>Rendering errors\<close>

text \<open>
  Claim C4. When rendering some fragment of some override row fails, \<open>processArgs\<close>
  returns an error and no rows, the error of the first fragment that fails in the order
  of the rows, and \<open>getCommandArgs\<close> returns that error and no token list, whatever the
  orders of the map visits would have been.
\<close>

theorem render_failure_aborts:
  assumes "p \<in> set (concat (cfg_QemuArgs (config st)))"
    and "isl (interpolate_Render lib (templateData st) p)"
  shows "\<exists>q err.
           List.find (\<lambda>p. isl (interpolate_Render lib (templateData st) p))
             (concat (cfg_QemuArgs (config st))) = Some q \<and>
           interpolate_Render lib (templateData st) q = Inl err \<and>
           processArgs (interpolate_Render lib (templateData st)) (cfg_QemuArgs (config st)) = Inl err \<and>
           snd (getCommandArgs lib bootDrive st dkeys keys) = Inl (Err err)"
proof -
  let ?render = "interpolate_Render lib (templateData st)"
  let ?args = "cfg_QemuArgs (config st)"
  from assms obtain q where q: "List.find (\<lambda>p. isl (?render p)) (concat ?args) = Some q"
    by (cases "List.find (\<lambda>p. isl (?render p)) (concat ?args)") (auto simp: find_None_iff)
  then have "isl (?render q)"
    by (auto simp: find_Some_iff)
  then obtain err where err: "?render q = Inl err"
    by (cases "?render q") auto
  from processArgs_first_error [OF q] err have p: "processArgs ?render ?args = Inl err"
    by simp
  from overrideArgsOf_error [OF p] have "snd (getCommandArgs lib bootDrive st dkeys keys) = Inl (Err err)"
    by (rule getCommandArgs_Inl)
  with q err p show ?thesis
    by blast
qed

theorem render_failure_aborts_witness:
  "''{{ .Nope }}'' \<in> set (concat (cfg_QemuArgs (config failing_state))) \<and>
   isl (interpolate_Render example_library (templateData failing_state) ''{{ .Nope }}'') \<and>
   processArgs (interpolate_Render example_library (templateData failing_state))
     (cfg_QemuArgs (config failing_state)) = Inl ''no such field'' \<and>
   snd (getCommandArgs example_library ''c'' failing_state example_order1 example_order1) =
     Inl (Err ''no such field'')"
proof -
  have p: "''{{ .Nope }}'' \<in> set (concat (cfg_QemuArgs (config failing_state)))"
    by (simp add: failing_state_def)
  have r: "isl (interpolate_Render example_library (templateData failing_state) ''{{ .Nope }}'')"
    by (simp add: example_library_def)
  have f: "List.find (\<lambda>p. isl (interpolate_Render example_library (templateData failing_state) p))
             (concat (cfg_QemuArgs (config failing_state))) = Some ''{{ .Nope }}''"
    by (simp add: failing_state_def example_library_def)
  have e: "interpolate_Render example_library (templateData failing_state) ''{{ .Nope }}'' =
             Inl ''no such field''"
    by (simp add: example_library_def)
  from render_failure_aborts [OF p r, of "''c''" example_order1 example_order1] f e p r
  show ?thesis
    by auto
qed

subsection \<open>Running the synthesis twice\<close>

text \<open>
  Claim C5. Two runs of \<open>getCommandArgs\<close> on the same library, boot drive and state,
  each with its own visits of the two maps, return token lists that are the entries of
  two entry lists standing for the same map from key to value list; the messages to the
  UI are the same. The token lists themselves may differ, as they do in the witness.
\<close>

theorem rerun_gives_same_buckets:
  assumes "snd (overrideArgsOf lib st) = Inr inArgs"
    and "range_order (snd (defaultArgsOf lib bootDrive st)) dkeys1"
    and "range_order (snd (defaultArgsOf lib bootDrive st)) dkeys2"
    and "range_order (fillDefaults (snd (defaultArgsOf lib bootDrive st)) dkeys1 inArgs) keys1"
    and "range_order (fillDefaults (snd (defaultArgsOf lib bootDrive st)) dkeys2 inArgs) keys2"
  shows "snd (getCommandArgs lib bootDrive st dkeys1 keys1) =
           Inr (tokens_of (entries_of
             (fillDefaults (snd (defaultArgsOf lib bootDrive st)) dkeys1 inArgs) keys1)) \<and>
         snd (getCommandArgs lib bootDrive st dkeys2 keys2) =
           Inr (tokens_of (entries_of
             (fillDefaults (snd (defaultArgsOf lib bootDrive st)) dkeys2 inArgs) keys2)) \<and>
         buckets_of (entries_of
             (fillDefaults (snd (defaultArgsOf lib bootDrive st)) dkeys1 inArgs) keys1) =
         buckets_of (entries_of
             (fillDefaults (snd (defaultArgsOf lib bootDrive st)) dkeys2 inArgs) keys2) \<and>
         fst (getCommandArgs lib bootDrive st dkeys1 keys1) =
         fst (getCommandArgs lib bootDrive st dkeys2 keys2)"
proof -
  let ?D = "snd (defaultArgsOf lib bootDrive st)"
  have "set dkeys1 = set dkeys2"
    using assms(2,3) by (simp add: range_order_def)
  then have same: "fillDefaults ?D dkeys1 inArgs = fillDefaults ?D dkeys2 inArgs"
    by (rule fillDefaults_order)
  have b1: "buckets_of (entries_of (fillDefaults ?D dkeys1 inArgs) keys1) = fillDefaults ?D dkeys1 inArgs"
    using assms(4) by (rule buckets_of_entries_of)
  have b2: "buckets_of (entries_of (fillDefaults ?D dkeys2 inArgs) keys2) = fillDefaults ?D dkeys2 inArgs"
    using assms(5) by (rule buckets_of_entries_of)
  show ?thesis
    using getCommandArgs_Inr [OF assms(1)] b1 b2 same
    by (simp add: flattenArgs_eq getCommandArgs_ui)
qed

theorem rerun_gives_same_buckets_witness:
  "snd (overrideArgsOf example_library example_state) = Inr example_collected \<and>
   range_order (snd (defaultArgsOf example_library ''c'' example_state)) example_order1 \<and>
   range_order (snd (defaultArgsOf example_library ''c'' example_state)) example_order2 \<and>
   range_order (fillDefaults (snd (defaultArgsOf example_library ''c'' example_state)) example_order1
     example_collected) (''-dev'' # example_order1) \<and>
   range_order (fillDefaults (snd (defaultArgsOf example_library ''c'' example_state)) example_order2
     example_collected) (example_order2 @ [''-dev'']) \<and>
   snd (getCommandArgs example_library ''c'' example_state example_order1 (''-dev'' # example_order1)) =
     Inr [''-dev'', ''x'', ''-dev'', ''y'', ''-name'', ''vm'', ''-machine'', ''type=pc,accel=kvm'',
          ''-netdev'', ''user,id=user.0,hostfwd=tcp::2222-:22'', ''-device'', ''e1000,netdev=user.0'',
          ''-drive'', ''file=out/vm.qcow2,if=virtio,cache=none,discard=ignore'',
          ''-boot'', ''c'', ''-m'', ''1G'', ''-vnc'', ''0.0.0.0:47''] \<and>
   snd (getCommandArgs example_library ''c'' example_state example_order2 (example_order2 @ [''-dev''])) =
     Inr [''-vnc'', ''0.0.0.0:47'', ''-boot'', ''c'', ''-m'', ''1G'',
          ''-drive'', ''file=out/vm.qcow2,if=virtio,cache=none,discard=ignore'',
          ''-device'', ''e1000,netdev=user.0'', ''-netdev'', ''user,id=user.0,hostfwd=tcp::2222-:22'',
          ''-machine'', ''type=pc,accel=kvm'', ''-name'', ''vm'', ''-dev'', ''x'', ''-dev'', ''y''] \<and>
   buckets_of (entries_of (fillDefaults (snd (defaultArgsOf example_library ''c'' example_state))
       example_order1 example_collected) (''-dev'' # example_order1)) =
   buckets_of (entries_of (fillDefaults (snd (defaultArgsOf example_library ''c'' example_state))
       example_order2 example_collected) (example_order2 @ [''-dev'']))"
  using rerun_gives_same_buckets [OF example_state_collected example_state_dorder example_state_order]
    example_state_collected example_state_dorder example_state_order
  unfolding example_state_final2 example_state_final
  by (simp add: tokens_of_def entries_of_def key_entries_def example_order1_def example_order2_def)

subsection \<open>The default arguments\<close>

text \<open>
  Claim C6. With \<open>Headless\<close> set, the default map has no \<open>-display\<close> key and the
  headless warning is sent to the UI exactly once, while the defaults are built and in the
  whole of \<open>getCommandArgs\<close>; with \<open>Headless\<close> not set, \<open>-display\<close> is \<open>sdl\<close> and the
  warning is not sent.
\<close>

theorem headless_display_and_warning:
  "(cfg_Headless (config st) \<longrightarrow>
      snd (defaultArgsOf lib bootDrive st) ''-display'' = None \<and>
      count_list (fst (defaultArgsOf lib bootDrive st)) (Message headless_warning) = 1 \<and>
      count_list (fst (getCommandArgs lib bootDrive st dkeys keys)) (Message headless_warning) = 1) \<and>
   (\<not> cfg_Headless (config st) \<longrightarrow>
      snd (defaultArgsOf lib bootDrive st) ''-display'' = Some ''sdl'' \<and>
      count_list (fst (defaultArgsOf lib bootDrive st)) (Message headless_warning) = 0 \<and>
      count_list (fst (getCommandArgs lib bootDrive st dkeys keys)) (Message headless_warning) = 0)"
  by (simp add: defaultArgsOf_display defaultArgsOf_ui getCommandArgs_ui overrideArgsOf_ui
        warnings_differ)

theorem headless_display_and_warning_witness:
  "cfg_Headless (config example_state) \<and>
   snd (defaultArgsOf example_library ''c'' example_state) ''-display'' = None \<and>
   count_list (fst (getCommandArgs example_library ''c'' example_state example_order1
     (''-dev'' # example_order1))) (Message headless_warning) = 1 \<and>
   \<not> cfg_Headless (config windowed_state) \<and>
   snd (defaultArgsOf example_library ''c'' windowed_state) ''-display'' = Some ''sdl'' \<and>
   count_list (fst (getCommandArgs example_library ''c'' windowed_state example_order1
     (''-dev'' # example_order1))) (Message headless_warning) = 0"
  using headless_display_and_warning [where st = example_state and lib = example_library
      and bootDrive = "''c''" and dkeys = example_order1 and keys = "''-dev'' # example_order1"]
    headless_display_and_warning [where st = windowed_state and lib = example_library
      and bootDrive = "''c''" and dkeys = example_order1 and keys = "''-dev'' # example_order1"]
  by (simp add: example_state_def example_config_def windowed_state_def)

text \<open>
  Claim C7. The default of \<open>-vnc\<close> is the host \<open>0.0.0.0\<close>, a colon, and the decimal
  digits of the VNC port minus 5900, the subtraction being that of \<open>uint\<close>; for a port of
  at least 5900 on a platform of at least 13 bits that is the difference of the numbers.
\<close>

theorem vnc_default_value:
  "snd (defaultArgsOf lib bootDrive st) ''-vnc'' =
     Some (''0.0.0.0'' @ '':'' @ fmt_d (unat (vnc_port st - 5900))) \<and>
   (5900 \<le> unat (vnc_port st) \<longrightarrow> 13 \<le> LENGTH('w) \<longrightarrow>
      unat (vnc_port st - 5900) = unat (vnc_port st) - 5900)"
  for st :: "'w::len StateBag"
proof -
  have "unat (vnc_port st - 5900) = unat (vnc_port st) - 5900"
    if "5900 \<le> unat (vnc_port st)" and "13 \<le> LENGTH('w)"
  proof -
    have "(2::nat) ^ 13 \<le> 2 ^ LENGTH('w)"
      using that(2) by (rule power_increasing) simp
    then have "unat (5900 :: 'w word) = 5900"
      by (simp add: unat_numeral take_bit_nat_eq_self_iff)
    with that(1) show ?thesis
      by (simp add: unat_sub_if' )
  qed
  then show ?thesis
    by (simp add: defaultArgsOf_vnc vnc_arg_def)
qed

theorem vnc_default_value_witness:
  "5900 \<le> unat (vnc_port example_state) \<and> 13 \<le> LENGTH(64) \<and>
   snd (defaultArgsOf example_library ''c'' example_state) ''-vnc'' = Some ''0.0.0.0:47'' \<and>
   unat (vnc_port example_state - 5900) = 47"
  using vnc_default_value [where st = example_state and lib = example_library and bootDrive = "''c''"]
  by (simp add: example_state_def fmt_d.simps digit_def)

text \<open>
  Claim C9. The port written into the default of \<open>-vnc\<close> is the VNC port minus 5900
  modulo \<open>2 ^ w\<close>, for the width \<open>w\<close> of \<open>uint\<close>: for a port below 5900 (and a width
  of at least 13 bits, as 32 and 64 are) it is \<open>2 ^ w - 5900\<close> plus the port, and nothing
  fails.
\<close>

theorem vnc_port_wraps:
  "snd (defaultArgsOf lib bootDrive st) ''-vnc'' =
     Some (''0.0.0.0:'' @ fmt_d (nat ((uint (vnc_port st) - 5900) mod 2 ^ LENGTH('w)))) \<and>
   (uint (vnc_port st) < 5900 \<longrightarrow> 13 \<le> LENGTH('w) \<longrightarrow>
      (uint (vnc_port st) - 5900) mod 2 ^ LENGTH('w) = 2 ^ LENGTH('w) - 5900 + uint (vnc_port st))"
  for st :: "'w::len StateBag"
proof -
  have a: "unat (vnc_port st - 5900) = nat ((uint (vnc_port st) - 5900) mod 2 ^ LENGTH('w))"
  proof -
    have "uint (vnc_port st - 5900) =
            (uint (vnc_port st) - uint (5900 :: 'w word)) mod 2 ^ LENGTH('w)"
      by (rule uint_word_ariths)
    moreover have "uint (5900 :: 'w word) = 5900 mod 2 ^ LENGTH('w)"
      by (simp add: take_bit_eq_mod zmod_int)
    ultimately have "uint (vnc_port st - 5900) = (uint (vnc_port st) - 5900) mod 2 ^ LENGTH('w)"
      by (simp add: mod_diff_right_eq)
    then show ?thesis
      by (simp add: unat_eq_nat_uint)
  qed
  have b: "(uint (vnc_port st) - 5900) mod 2 ^ LENGTH('w) = 2 ^ LENGTH('w) - 5900 + uint (vnc_port st)"
    if "uint (vnc_port st) < 5900" and "13 \<le> LENGTH('w)"
  proof -
    have "(2::int) ^ 13 \<le> 2 ^ LENGTH('w)"
      using that(2) by (rule power_increasing) simp
    then have big: "(5900::int) < 2 ^ LENGTH('w)"
      by simp
    have "(uint (vnc_port st) - 5900) mod 2 ^ LENGTH('w) =
          (uint (vnc_port st) - 5900 + 2 ^ LENGTH('w)) mod 2 ^ LENGTH('w)"
      by simp
    also have "\<dots> = uint (vnc_port st) - 5900 + 2 ^ LENGTH('w)"
    proof (rule mod_pos_pos_trivial)
      have "0 \<le> uint (vnc_port st)" by simp
      with big show "0 \<le> uint (vnc_port st) - 5900 + 2 ^ LENGTH('w)" by linarith
      from that(1) show "uint (vnc_port st) - 5900 + 2 ^ LENGTH('w) < 2 ^ LENGTH('w)" by linarith
    qed
    finally show ?thesis by simp
  qed
  show ?thesis
    using a b by (simp add: defaultArgsOf_vnc vnc_arg_def)
qed

theorem vnc_port_wraps_witness:
  "uint (vnc_port wrapped_state) < 5900 \<and> 13 \<le> LENGTH(64) \<and>
   snd (defaultArgsOf example_library ''c'' wrapped_state) ''-vnc'' =
     Some ''0.0.0.0:18446744073709551615''"
  using vnc_port_wraps [where st = wrapped_state and lib = example_library and bootDrive = "''c''"]
  by (simp add: wrapped_state_def example_state_def fmt_d.simps digit_def)

subsection \<open>Cleanup\<close>

text \<open>
  Claim C8. \<open>Cleanup\<close> calls \<open>Stop\<close> on the driver exactly once, as its first effect.
  When \<open>Stop\<close> returns no error that is all it does; when \<open>Stop\<close> returns an error
  the only further effect is one error message to the UI, and \<open>Cleanup\<close> returns.
\<close>

theorem cleanup_stops_once:
  "count_list (Cleanup s driver) CallStop = 1 \<and>
   (drv_Stop driver = None \<longrightarrow> Cleanup s driver = [CallStop]) \<and>
   (\<forall>err. drv_Stop driver = Some err \<longrightarrow>
      Cleanup s driver = [CallStop, Ui (Error (''Error shutting down VM: '' @ err))])"
  by (simp add: Cleanup_def split: option.splits)

theorem cleanup_stops_once_witness:
  "drv_Stop stopping_driver = None \<and>
   Cleanup example_step stopping_driver = [CallStop] \<and>
   drv_Stop failing_driver = Some ''timeout'' \<and>
   Cleanup example_step failing_driver = [CallStop, Ui (Error ''Error shutting down VM: timeout'')]"
  using cleanup_stops_once [of example_step stopping_driver]
    cleanup_stops_once [of example_step failing_driver]
  by (simp add: stopping_driver_def failing_driver_def)

end
